theory Spec2Isabelle
  imports Main
begin

section \<open>Python values used by the planning workflow\<close>

text \<open>
  The planner of \<^verbatim>\<open>track1_planning.py\<close> works on Python strings, lists and the
  framework's \<^verbatim>\<open>Agent\<close> and \<^verbatim>\<open>Task\<close> objects. Strings are modelled as
  \<open>string\<close>, one \<open>char\<close> per code point below 256; in that range the only
  characters matched by the pattern \<^verbatim>\<open>\d\<close> are \<^verbatim>\<open>0\<close> to \<^verbatim>\<open>9\<close>.
  Exceptions are values of \<open>py_error\<close>; a function that can raise returns
  \<open>py_error + 'a\<close> with the exception on the left.
\<close>

datatype py_error = ValueError string | IndexError | TypeError

text \<open>Of an agent, the plan depends on the name only; the description, like the
  example tasks and tools left out here, goes into the prompt text.\<close>

record agent =
  name :: string
  agent_description :: string

text \<open>
  A \<^verbatim>\<open>Task\<close> carries its description, the expected output, the agents allowed to
  run it (\<^verbatim>\<open>None\<close> when unset) and the tasks whose results it consumes, its
  \<^verbatim>\<open>context\<close> (written \<open>context'\<close>, the plain word being reserved). The constructor
  stores the four values as given.
\<close>

datatype task =
  Task (description: string) (expected_output: string)
       (agents: "agent list option") (context': "task list")

text \<open>Indexing \<^verbatim>\<open>xs[i]\<close>: a negative index counts from the end, anything else
  outside the list raises \<^verbatim>\<open>IndexError\<close>.\<close>

definition py_index :: "'a list \<Rightarrow> int \<Rightarrow> py_error + 'a" where
  "py_index xs i =
     (if 0 \<le> i \<and> i < int (length xs) then Inr (xs ! nat i)
      else if i < 0 \<and> - int (length xs) \<le> i then Inr (xs ! nat (int (length xs) + i))
      else Inl IndexError)"

section \<open>The regular expressions\<close>

definition is_digit :: "char \<Rightarrow> bool" where
  "is_digit c = (c \<in> set ''0123456789'')"

text \<open>\<^verbatim>\<open>int(s)\<close> on a non-empty string of decimal digits.\<close>

definition py_int :: "string \<Rightarrow> int" where
  "py_int ds = foldl (\<lambda>acc c. 10 * acc + (int (of_char c) - 48)) 0 ds"

fun strip_prefix :: "string \<Rightarrow> string \<Rightarrow> string option" where
  "strip_prefix [] s = Some s"
| "strip_prefix (p # ps) [] = None"
| "strip_prefix (p # ps) (c # cs) = (if p = c then strip_prefix ps cs else None)"

text \<open>
  A matcher tries its pattern at the start of the text and returns the captured group
  with the length of the whole match. \<open>match_section label\<close> is the pattern
  \<^verbatim>\<open>#<label>\d+: (.+)\<close>: the label, one or more digits, a colon and a space, then
  the rest of the line (at least one character, none of them a newline).
  The greedy \<^verbatim>\<open>\d+\<close> takes every digit; giving one back never helps, because the
  next pattern character is the colon.
\<close>

definition match_section :: "string \<Rightarrow> string \<Rightarrow> (string \<times> nat) option" where
  "match_section label s =
     (case strip_prefix (CHR ''#'' # label) s of
        None \<Rightarrow> None
      | Some r \<Rightarrow>
          (let ds = takeWhile is_digit r in
           if ds = [] then None
           else (case strip_prefix '': '' (dropWhile is_digit r) of
                   None \<Rightarrow> None
                 | Some body \<Rightarrow>
                     (let g = takeWhile (\<lambda>c. c \<noteq> CHR 0x0A) body in
                      if g = [] then None
                      else Some (g, 1 + length label + length ds + 2 + length g)))))"

text \<open>\<open>match_step_ref\<close> is the pattern \<^verbatim>\<open>#S(\d+)\<close>.\<close>

definition match_step_ref :: "string \<Rightarrow> (string \<times> nat) option" where
  "match_step_ref s =
     (case strip_prefix ''#S'' s of
        None \<Rightarrow> None
      | Some r \<Rightarrow>
          (let ds = takeWhile is_digit r in
           if ds = [] then None else Some (ds, 2 + length ds)))"

text \<open>The four section patterns of \<^verbatim>\<open>generate_steps\<close>.\<close>

definition task_pattern :: "string \<Rightarrow> (string \<times> nat) option" where
  "task_pattern = match_section ''Task''"

definition agent_pattern :: "string \<Rightarrow> (string \<times> nat) option" where
  "agent_pattern = match_section ''Agent''"

definition dependency_pattern :: "string \<Rightarrow> (string \<times> nat) option" where
  "dependency_pattern = match_section ''Dependency''"

definition output_pattern :: "string \<Rightarrow> (string \<times> nat) option" where
  "output_pattern = match_section ''ExpectedOutput''"

text \<open>
  \<^verbatim>\<open>re.findall\<close> with one group: scan from the left, at each position try the
  pattern, keep the group of every match and resume right after the match.
\<close>

fun findall :: "(string \<Rightarrow> (string \<times> nat) option) \<Rightarrow> string \<Rightarrow> string list" where
  "findall m [] = []"
| "findall m (c # cs) =
     (case m (c # cs) of
        None \<Rightarrow> findall m cs
      | Some (g, len) \<Rightarrow> g # findall m (drop (max 1 len) (c # cs)))"

section \<open>The planning workflow\<close>

text \<open>
  The constructor receives any Python value as \<^verbatim>\<open>tasks\<close>; \<open>NotAList\<close> stands for
  every value that fails \<^verbatim>\<open>isinstance(tasks, list)\<close>.
\<close>

datatype tasks_arg = TaskList "task list" | NotAList

record workflow =
  tasks :: tasks_arg
  memory :: "string list"
  max_memory :: nat
  llm :: string
  max_retries :: nat

definition verify_tasks :: "workflow \<Rightarrow> py_error + unit" where
  "verify_tasks self =
     (case tasks self of
        NotAList \<Rightarrow> Inl (ValueError ''tasks must be a list of Task objects'')
      | TaskList l \<Rightarrow>
          if length l \<noteq> 1 then Inl (ValueError ''Planning only supports one task'')
          else (case agents (l ! 0) of
                  None \<Rightarrow> Inl (ValueError ''Task must have at least one agent'')
                | Some roster \<Rightarrow>
                    if length roster < 1
                    then Inl (ValueError ''Task must have at least one agent'')
                    else Inr ()))"

text \<open>\<^verbatim>\<open>__init__\<close>: store the fields, then verify. Nothing else happens in the
  constructor; the inference function is called by \<^verbatim>\<open>generate_steps\<close> only.\<close>

definition init :: "tasks_arg \<Rightarrow> string \<Rightarrow> py_error + workflow" where
  "init tasks_in llm_in =
     (let self = \<lparr>tasks = tasks_in, memory = [], max_memory = 10, llm = llm_in,
                  max_retries = 5\<rparr>
      in case verify_tasks self of
           Inl e \<Rightarrow> Inl e
         | Inr _ \<Rightarrow> Inr self)"

text \<open>The inner loop over the roster: the first agent whose name is the parsed one,
  else \<^verbatim>\<open>task.agents[0]\<close>.\<close>

definition select_agent :: "agent list \<Rightarrow> string \<Rightarrow> py_error + agent" where
  "select_agent roster agent_name =
     (case find (\<lambda>a. name a = agent_name) roster of
        Some a \<Rightarrow> Inr a
      | None \<Rightarrow> py_index roster 0)"

text \<open>The list comprehension \<^verbatim>\<open>[planned_tasks[i - 1] for i in numbers]\<close>: the
  first failing index raises.\<close>

fun lookup_all :: "task list \<Rightarrow> int list \<Rightarrow> py_error + task list" where
  "lookup_all planned_tasks [] = Inr []"
| "lookup_all planned_tasks (i # numbers) =
     (case py_index planned_tasks (i - 1) of
        Inl e \<Rightarrow> Inl e
      | Inr t \<Rightarrow>
          (case lookup_all planned_tasks numbers of
             Inl e \<Rightarrow> Inl e
           | Inr ts \<Rightarrow> Inr (t # ts)))"

text \<open>The numbers of the \<^verbatim>\<open>#S<n>\<close> tokens of a dependency text, in token order.\<close>

definition step_refs :: "string \<Rightarrow> int list" where
  "step_refs dependency = map py_int (findall match_step_ref dependency)"

definition build_context :: "task list \<Rightarrow> string \<Rightarrow> py_error + task list" where
  "build_context planned_tasks dependency =
     (if dependency \<noteq> ''None''
      then (let numbers = findall match_step_ref dependency;
                numbers = map py_int numbers
            in lookup_all planned_tasks numbers)
      else Inr [])"

text \<open>The dependency text and the expected output of step \<open>i\<close>, with the defaults
  the loop uses when a section is shorter.\<close>

definition step_dependency :: "string list \<Rightarrow> nat \<Rightarrow> string" where
  "step_dependency dependencies i =
     (if i < length dependencies then dependencies ! i else ''None'')"

definition step_output :: "string list \<Rightarrow> nat \<Rightarrow> string" where
  "step_output outputs i = (if i < length outputs then outputs ! i else [])"

text \<open>
  The loop \<^verbatim>\<open>for i in range(len(tasks))\<close> of \<^verbatim>\<open>generate_steps\<close>, with the four
  extracted sections, the index \<open>i\<close> and the list built so far.
\<close>

function steps_loop ::
  "agent list \<Rightarrow> string list \<Rightarrow> string list \<Rightarrow> string list \<Rightarrow> string list \<Rightarrow>
   nat \<Rightarrow> task list \<Rightarrow> py_error + task list" where
  "steps_loop roster task_descs agent_names dependencies outputs i planned_tasks =
     (if i < length task_descs then
        (case py_index task_descs (int i) of
           Inl e \<Rightarrow> Inl e
         | Inr task_description \<Rightarrow>
             if i = length agent_names then Inr planned_tasks
             else
               (case py_index agent_names (int i) of
                  Inl e \<Rightarrow> Inl e
                | Inr agent_name \<Rightarrow>
                    (let dependency = step_dependency dependencies i;
                         expected_output = step_output outputs i
                     in case select_agent roster agent_name of
                          Inl e \<Rightarrow> Inl e
                        | Inr selected_agent \<Rightarrow>
                            (case build_context planned_tasks dependency of
                               Inl e \<Rightarrow> Inl e
                             | Inr ctx \<Rightarrow>
                                 steps_loop roster task_descs agent_names dependencies outputs
                                   (Suc i)
                                   (planned_tasks @
                                    [Task task_description expected_output
                                       (Some [selected_agent]) ctx])))))
      else Inr planned_tasks)"
  by pat_completeness auto
termination
  by (relation "measure (\<lambda>(roster, task_descs, agent_names, dependencies, outputs, i, planned_tasks).
                    length task_descs - i)") auto

text \<open>
  \<^verbatim>\<open>generate_steps\<close> as a function of the workflow object and of the text that the
  inference call returned (the call itself is outside this development). Indexing or
  iterating a value that is no list raises \<^verbatim>\<open>TypeError\<close>, as does rendering the
  prompt over \<^verbatim>\<open>task.agents\<close> when that is \<^verbatim>\<open>None\<close>. The second component is the
  object afterwards: \<^verbatim>\<open>self.memory\<close> is reset once the reply has arrived.
  Plan saving is off (\<^verbatim>\<open>save_plan=False\<close>).
\<close>

definition generate_steps :: "workflow \<Rightarrow> string \<Rightarrow> (py_error + task list) \<times> workflow" where
  "generate_steps self llm_response =
     (case tasks self of
        NotAList \<Rightarrow> (Inl TypeError, self)
      | TaskList l \<Rightarrow>
          (case py_index l 0 of
             Inl e \<Rightarrow> (Inl e, self)
           | Inr task \<Rightarrow>
               (case agents task of
                  None \<Rightarrow> (Inl TypeError, self)
                | Some roster \<Rightarrow>
                    (let final_plan = llm_response;
                         task_descs = findall task_pattern final_plan;
                         agent_names = findall agent_pattern final_plan;
                         dependencies = findall dependency_pattern final_plan;
                         outputs = findall output_pattern final_plan
                     in (steps_loop roster task_descs agent_names dependencies outputs 0 [],
                         self\<lparr>memory := []\<rparr>)))))"


section \<open>The scenario validator\<close>

text \<open>
  The validator module (\<^verbatim>\<open>assetopsbench.core.validator\<close>) is used by the tests only;
  its functions are modelled from the specification of the scenario validator.
  A scenario record is a JSON object, here an association list from field names to
  JSON values.
\<close>

datatype json =
  JNull | JBool bool | JInt int | JString string
| JArray "json list" | JObject "(string \<times> json) list"

definition field_error :: "string \<Rightarrow> string \<Rightarrow> string" where
  "field_error field msg = field @ '': '' @ msg"

definition is_string :: "json \<Rightarrow> bool" where
  "is_string v = (case v of JString _ \<Rightarrow> True | _ \<Rightarrow> False)"

definition is_bool :: "json \<Rightarrow> bool" where
  "is_bool v = (case v of JBool _ \<Rightarrow> True | _ \<Rightarrow> False)"

definition is_mapping :: "json \<Rightarrow> bool" where
  "is_mapping v = (case v of JObject _ \<Rightarrow> True | _ \<Rightarrow> False)"

definition is_string_or_null :: "json \<Rightarrow> bool" where
  "is_string_or_null v = (case v of JString _ \<Rightarrow> True | JNull \<Rightarrow> True | _ \<Rightarrow> False)"

text \<open>An integer identifier is coerced to its string form, a string passes through;
  both give a string identifier.\<close>

definition is_string_coercible :: "json \<Rightarrow> bool" where
  "is_string_coercible v = (case v of JInt _ \<Rightarrow> True | JString _ \<Rightarrow> True | _ \<Rightarrow> False)"

text \<open>A required field: an error when it is missing, an error when its shape is wrong.\<close>

definition check_required ::
  "(string \<times> json) list \<Rightarrow> string \<Rightarrow> (json \<Rightarrow> bool) \<Rightarrow> string list" where
  "check_required record_in field shape =
     (case map_of record_in field of
        None \<Rightarrow> [field_error field ''field required'']
      | Some v \<Rightarrow> if shape v then [] else [field_error field ''wrong type''])"

text \<open>An optional field is checked only when it is present.\<close>

definition check_optional ::
  "(string \<times> json) list \<Rightarrow> string \<Rightarrow> (json \<Rightarrow> bool) \<Rightarrow> string list" where
  "check_optional record_in field shape =
     (case map_of record_in field of
        None \<Rightarrow> []
      | Some v \<Rightarrow> if shape v then [] else [field_error field ''wrong type''])"

text \<open>The optional fields with their declared shapes.\<close>

definition optional_fields :: "(string \<times> (json \<Rightarrow> bool)) list" where
  "optional_fields =
     [(''type'', is_string), (''category'', is_string), (''deterministic'', is_bool),
      (''characteristic_form'', is_string_or_null), (''expected_result'', is_mapping),
      (''data'', is_mapping), (''source'', is_string)]"

text \<open>
  Modelled from the spec: \<^verbatim>\<open>validate_scenario\<close> of the validator module, which is
  not among the sources. The checks are those of the specification: \<^verbatim>\<open>id\<close> present
  (an integer is coerced to a string), \<^verbatim>\<open>text\<close> present as a string, each optional
  field of its declared shape when present, every other field ignored; one error string
  naming the field for each failed check, the empty list on success.
\<close>

definition validate_scenario :: "(string \<times> json) list \<Rightarrow> string list" where
  "validate_scenario record_in =
     check_required record_in ''id'' is_string_coercible
     @ check_required record_in ''text'' is_string
     @ concat (map (\<lambda>(field, shape). check_optional record_in field shape) optional_fields)"

text \<open>Whether a message mentions a word: the word occurs in it as a contiguous part.\<close>

fun mentions :: "string \<Rightarrow> string \<Rightarrow> bool" where
  "mentions w [] = (w = [])"
| "mentions w (c # cs) = (strip_prefix w (c # cs) \<noteq> None \<or> mentions w cs)"

text \<open>A directory holds files and sub-directories, each with its name.\<close>

datatype fs_entry = File string | Dir string "fs_entry list"

definition ends_with :: "string \<Rightarrow> string \<Rightarrow> bool" where
  "ends_with ext path = (strip_prefix (rev ext) (rev path) \<noteq> None)"

definition is_data_file :: "string \<Rightarrow> bool" where
  "is_data_file path = (ends_with ''.json'' path \<or> ends_with ''.jsonl'' path)"

text \<open>
  Modelled from the spec: \<^verbatim>\<open>find_json_files\<close> of the validator module, which is not
  among the sources. It enumerates the files of a directory whose extension is
  \<^verbatim>\<open>.json\<close> or \<^verbatim>\<open>.jsonl\<close>, descending into sub-directories only when
  \<open>recursive\<close> is set; paths are relative to the scanned directory.
\<close>

fun find_json_files :: "fs_entry list \<Rightarrow> bool \<Rightarrow> string list" where
  "find_json_files [] recursive = []"
| "find_json_files (File path # entries) recursive =
     (if is_data_file path then [path] else []) @ find_json_files entries recursive"
| "find_json_files (Dir dir sub # entries) recursive =
     (if recursive then map (\<lambda>p. dir @ ''/'' @ p) (find_json_files sub recursive) else [])
     @ find_json_files entries recursive"

section \<open>Example inputs\<close>

definition iot_agent :: agent where
  "iot_agent = \<lparr>name = ''IoT'', agent_description = ''sites, assets and sensor data''\<rparr>"

definition fmsr_agent :: agent where
  "fmsr_agent = \<lparr>name = ''FMSR'', agent_description = ''failure modes and sensors''\<rparr>"

definition goal_task :: "agent list \<Rightarrow> task" where
  "goal_task roster = Task ''Which sensors monitor fouling of Chiller 6?'' [] (Some roster) []"

definition new_workflow :: "task list \<Rightarrow> workflow" where
  "new_workflow ts =
     \<lparr>tasks = TaskList ts, memory = [], max_memory = 10, llm = ''granite'', max_retries = 5\<rparr>"

definition two_agent_workflow :: workflow where
  "two_agent_workflow = new_workflow [goal_task [iot_agent, fmsr_agent]]"

definition one_agent_workflow :: workflow where
  "one_agent_workflow = new_workflow [goal_task [iot_agent]]"

text \<open>A reply in the required format: two steps, the second depending on the first.\<close>

definition two_step_reply :: string where
  "two_step_reply =
     ''#Task1: List the sensors of Chiller 6'' @ [CHR 0x0A] @
     ''#Agent1: IoT'' @ [CHR 0x0A] @
     ''#Dependency1: None'' @ [CHR 0x0A] @
     ''#ExpectedOutput1: sensor names'' @ [CHR 0x0A] @ [CHR 0x0A] @
     ''#Task2: Map the sensors to fouling'' @ [CHR 0x0A] @
     ''#Agent2: Analyst'' @ [CHR 0x0A] @
     ''#Dependency2: #S1'' @ [CHR 0x0A] @
     ''#ExpectedOutput2: relevant sensors''"

text \<open>The plan that \<^verbatim>\<open>generate_steps\<close> builds from it for the two-agent workflow;
  \<^verbatim>\<open>Analyst\<close> is not on the roster.\<close>

definition first_step :: task where
  "first_step = Task ''List the sensors of Chiller 6'' ''sensor names'' (Some [iot_agent]) []"

definition two_step_plan :: "task list" where
  "two_step_plan =
     [first_step,
      Task ''Map the sensors to fouling'' ''relevant sensors'' (Some [iot_agent]) [first_step]]"









text \<open>The two scenario records of the validator tests and the test directory.\<close>

definition minimal_scenario :: "(string \<times> json) list" where
  "minimal_scenario =
     [(''id'', JString ''001''), (''text'', JString ''What IoT sites are available?'')]"

definition missing_text_scenario :: "(string \<times> json) list" where
  "missing_text_scenario = [(''id'', JString ''999'')]"

definition test_directory :: "fs_entry list" where
  "test_directory = [File ''test.json'', File ''test.jsonl'', File ''test.txt'', File ''test.py'']"

section \<open>Indexing and the context of a step\<close>

declare steps_loop.simps [simp del]

lemma py_index_nat: "i < length xs \<Longrightarrow> py_index xs (int i) = Inr (xs ! i)"
  by (simp add: py_index_def)


lemma py_index_Inr_nth: "py_index xs i = Inr x \<Longrightarrow> \<exists>j<length xs. x = xs ! j"
proof (cases "0 \<le> i")
  case True
  assume "py_index xs i = Inr x"
  with True have "nat i < length xs" "x = xs ! nat i"
    by (auto simp: py_index_def split: if_splits)
  then show ?thesis by blast
next
  case False
  assume "py_index xs i = Inr x"
  with False have "nat (int (length xs) + i) < length xs" "x = xs ! nat (int (length xs) + i)"
    by (auto simp: py_index_def split: if_splits)
  then show ?thesis by blast
qed






lemma lookup_all_Inr:
  "lookup_all P ns = Inr ts \<Longrightarrow>
     length ts = length ns \<and> (\<forall>j<length ns. py_index P (ns ! j - 1) = Inr (ts ! j))"
proof (induction ns arbitrary: ts)
  case Nil
  then show ?case by simp
next
  case (Cons n ns)
  from Cons.prems obtain t ts' where t: "py_index P (n - 1) = Inr t"
    and ts': "lookup_all P ns = Inr ts'" and ts: "ts = t # ts'"
    by (auto split: sum.splits)
  from Cons.IH [OF ts'] have len: "length ts' = length ns"
    and nth: "\<forall>j<length ns. py_index P (ns ! j - 1) = Inr (ts' ! j)" by simp_all
  show ?case
  proof (intro conjI allI impI)
    show "length ts = length (n # ns)" using len ts by simp
  next
    fix j assume "j < length (n # ns)"
    then show "py_index P ((n # ns) ! j - 1) = Inr (ts ! j)"
      using t nth ts by (cases j) simp_all
  qed
qed



lemma build_context_refs:
  "dependency \<noteq> ''None'' \<Longrightarrow>
     build_context P dependency = lookup_all P (step_refs dependency)"
  by (simp add: build_context_def step_refs_def)

lemma build_context_None: "build_context P ''None'' = Inr []"
  by (simp add: build_context_def)




lemma select_agent_Inr:
  assumes "select_agent R nm = Inr a"
  shows "a \<in> set R \<and>
         ((\<exists>b\<in>set R. name b = nm) \<longrightarrow> find (\<lambda>b. name b = nm) R = Some a \<and> name a = nm) \<and>
         ((\<forall>b\<in>set R. name b \<noteq> nm) \<longrightarrow> a = R ! 0)"
proof (cases "find (\<lambda>b. name b = nm) R")
  case None
  then have no: "\<forall>b\<in>set R. name b \<noteq> nm" by (simp add: find_None_iff)
  from None assms have "py_index R 0 = Inr a" by (simp add: select_agent_def)
  then have "R \<noteq> []" "a = R ! 0" by (auto simp: py_index_def split: if_splits)
  then have "a \<in> set R" by (cases R) simp_all
  with no \<open>a = R ! 0\<close> show ?thesis by blast
next
  case (Some b)
  with assms have ab: "a = b" by (simp add: select_agent_def)
  from Some have "b \<in> set R" "name b = nm" by (auto simp: find_Some_iff)
  with ab Some show ?thesis by blast
qed

section \<open>The loop\<close>

lemma steps_loop_stop:
  "\<not> i < length T \<or> i = length A \<Longrightarrow> steps_loop R T A D Os i P = Inr P"
  by (subst steps_loop.simps) (auto simp: py_index_nat)

lemma steps_loop_step:
  assumes "i < length T" "i < length A"
  shows "steps_loop R T A D Os i P =
     (case select_agent R (A ! i) of
        Inl e \<Rightarrow> Inl e
      | Inr a \<Rightarrow>
          (case build_context P (step_dependency D i) of
             Inl e \<Rightarrow> Inl e
           | Inr ctx \<Rightarrow>
               steps_loop R T A D Os (Suc i)
                 (P @ [Task (T ! i) (step_output Os i) (Some [a]) ctx])))"
  using assms by (subst steps_loop.simps) (simp add: py_index_nat Let_def)



lemma steps_loop_Inr:
  assumes "steps_loop R T A D Os i P = Inr plan" "length P = i" "i \<le> length A"
  shows "length plan = max i (min (length T) (length A)) \<and> take i plan = P \<and>
         (\<forall>k. i \<le> k \<and> k < length plan \<longrightarrow>
            (\<exists>a ctx. select_agent R (A ! k) = Inr a \<and>
               build_context (take k plan) (step_dependency D k) = Inr ctx \<and>
               plan ! k = Task (T ! k) (step_output Os k) (Some [a]) ctx))"
  using assms
proof (induction "length T - i" arbitrary: i P)
  case 0
  then have "steps_loop R T A D Os i P = Inr P"
    by (intro steps_loop_stop) auto
  with 0 show ?case by auto
next
  case (Suc n)
  show ?case
  proof (cases "i = length A")
    case True
    then have "steps_loop R T A D Os i P = Inr P"
      by (intro steps_loop_stop) auto
    with Suc.prems True show ?thesis by auto
  next
    case False
    with Suc.prems Suc.hyps(2) have iT: "i < length T" and iA: "i < length A" by auto
    from Suc.prems(1) obtain a ctx where a: "select_agent R (A ! i) = Inr a"
      and ctx: "build_context P (step_dependency D i) = Inr ctx"
      and rest: "steps_loop R T A D Os (Suc i)
                   (P @ [Task (T ! i) (step_output Os i) (Some [a]) ctx]) = Inr plan"
      unfolding steps_loop_step [OF iT iA] by (auto split: sum.splits)
    let ?P' = "P @ [Task (T ! i) (step_output Os i) (Some [a]) ctx]"
    have n: "n = length T - Suc i" using Suc.hyps(2) by simp
    have len': "length ?P' = Suc i" using Suc.prems(2) by simp
    have le': "Suc i \<le> length A" using iA by simp
    note IH = Suc.hyps(1) [OF n rest len' le']
    from IH have plen: "length plan = max (Suc i) (min (length T) (length A))"
      and tk: "take (Suc i) plan = ?P'"
      and later: "\<forall>k. Suc i \<le> k \<and> k < length plan \<longrightarrow>
            (\<exists>a ctx. select_agent R (A ! k) = Inr a \<and>
               build_context (take k plan) (step_dependency D k) = Inr ctx \<and>
               plan ! k = Task (T ! k) (step_output Os k) (Some [a]) ctx)"
      by blast+
    have l1: "length plan = max i (min (length T) (length A))"
      using plen iT iA by simp
    have "take i (take (Suc i) plan) = take i ?P'" using tk by simp
    then have l2: "take i plan = P" using Suc.prems(2) by (simp add: min_def)
    have "plan ! i = take (Suc i) plan ! i" by simp
    also have "\<dots> = Task (T ! i) (step_output Os i) (Some [a]) ctx"
      using Suc.prems(2) unfolding tk by (simp add: nth_append)
    finally have l3: "plan ! i = Task (T ! i) (step_output Os i) (Some [a]) ctx" .
    show ?thesis
    proof (intro conjI allI impI)
      fix k assume k: "i \<le> k \<and> k < length plan"
      show "\<exists>a ctx. select_agent R (A ! k) = Inr a \<and>
               build_context (take k plan) (step_dependency D k) = Inr ctx \<and>
               plan ! k = Task (T ! k) (step_output Os k) (Some [a]) ctx"
      proof (cases "k = i")
        case True
        with a ctx l2 l3 show ?thesis by auto
      next
        case False
        with k have "Suc i \<le> k \<and> k < length plan" by simp
        with later show ?thesis by blast
      qed
    qed (rule l1, rule l2)
  qed
qed


section \<open>From the loop to \<^verbatim>\<open>generate_steps\<close>\<close>

lemma generate_steps_loop:
  assumes "tasks self = TaskList (t # rest)" "agents t = Some R"
  shows "fst (generate_steps self reply) =
           steps_loop R (findall task_pattern reply) (findall agent_pattern reply)
             (findall dependency_pattern reply) (findall output_pattern reply) 0 []"
  using assms by (simp add: generate_steps_def py_index_def)

lemma generate_steps_Inr_roster:
  assumes "fst (generate_steps self reply) = Inr plan"
  shows "\<exists>t rest R. tasks self = TaskList (t # rest) \<and> agents t = Some R"
proof (cases "tasks self")
  case NotAList
  with assms show ?thesis by (simp add: generate_steps_def)
next
  case (TaskList l)
  show ?thesis
  proof (cases l)
    case Nil
    with TaskList assms show ?thesis by (simp add: generate_steps_def py_index_def)
  next
    case (Cons t rest)
    with TaskList assms show ?thesis
      by (cases "agents t") (simp_all add: generate_steps_def py_index_def)
  qed
qed

lemma generate_steps_plan:
  assumes "fst (generate_steps self reply) = Inr plan"
  shows "\<exists>t rest R. tasks self = TaskList (t # rest) \<and> agents t = Some R \<and>
           length plan = min (length (findall task_pattern reply))
                             (length (findall agent_pattern reply)) \<and>
           (\<forall>k<length plan.
              \<exists>a ctx. select_agent R (findall agent_pattern reply ! k) = Inr a \<and>
                build_context (take k plan)
                  (step_dependency (findall dependency_pattern reply) k) = Inr ctx \<and>
                plan ! k = Task (findall task_pattern reply ! k)
                             (step_output (findall output_pattern reply) k) (Some [a]) ctx)"
proof -
  from generate_steps_Inr_roster [OF assms] obtain t rest R
    where self: "tasks self = TaskList (t # rest)" "agents t = Some R" by blast
  with assms have "steps_loop R (findall task_pattern reply) (findall agent_pattern reply)
             (findall dependency_pattern reply) (findall output_pattern reply) 0 [] = Inr plan"
    by (simp add: generate_steps_loop)
  from steps_loop_Inr [OF this] self show ?thesis by simp
qed


lemma context_smaller: "c \<in> set (context' t) \<Longrightarrow> size c < size t"
  by (cases t) (auto simp: less_Suc_eq_le dest: size_list_estimation')

lemma build_context_members:
  assumes "build_context P d = Inr ctx"
  shows "\<forall>c\<in>set ctx. \<exists>i<length P. c = P ! i"
proof (cases "d = ''None''")
  case True
  with assms show ?thesis by (simp add: build_context_None)
next
  case False
  with assms have "lookup_all P (step_refs d) = Inr ctx" by (simp add: build_context_refs)
  from lookup_all_Inr [OF this]
  have len: "length ctx = length (step_refs d)"
    and nth: "\<forall>j<length (step_refs d). py_index P (step_refs d ! j - 1) = Inr (ctx ! j)"
    by simp_all
  show ?thesis
  proof
    fix c assume "c \<in> set ctx"
    then obtain j where "j < length ctx" "c = ctx ! j" by (auto simp: in_set_conv_nth)
    with len nth have "py_index P (step_refs d ! j - 1) = Inr c" by simp
    then show "\<exists>i<length P. c = P ! i" by (rule py_index_Inr_nth)
  qed
qed

lemma positions_of_members:
  "\<forall>c\<in>set ctx. \<exists>i<k. c = plan ! i \<Longrightarrow>
     \<exists>js. length js = length ctx \<and> (\<forall>j\<in>set js. j < k) \<and> ctx = map ((!) plan) js"
proof (induction ctx)
  case Nil
  then show ?case by simp
next
  case (Cons c ctx)
  from Cons.prems have rest: "\<forall>c\<in>set ctx. \<exists>i<k. c = plan ! i" by simp
  from Cons.IH [OF rest] obtain js
    where js: "length js = length ctx" "\<forall>j\<in>set js. j < k" "ctx = map ((!) plan) js"
    by (elim exE conjE)
  from Cons.prems have "\<exists>i<k. c = plan ! i" by simp
  then obtain i where i: "i < k" "c = plan ! i" by (elim exE conjE)
  show ?case
  proof (intro exI [of _ "i # js"] conjI)
    show "length (i # js) = length (c # ctx)" using js(1) by simp
    show "\<forall>j\<in>set (i # js). j < k" using js(2) i(1) by simp
    show "c # ctx = map ((!) plan) (i # js)" using js(3) i(2) by simp
  qed
qed





section \<open>Runs on the example inputs\<close>

lemma two_step_run:
  "fst (generate_steps two_agent_workflow two_step_reply) = Inr two_step_plan"
  by code_simp














section \<open>The scenario validator\<close>

lemma mentions_prefix: "mentions w (w @ rest) \<or> w = []"
proof (cases w)
  case Nil
  then show ?thesis by simp
next
  case (Cons c cs)
  have "strip_prefix w (w @ rest) = Some rest" by (induction w) simp_all
  with Cons show ?thesis by simp
qed

lemma check_optional_ok:
  "(case map_of r f of None \<Rightarrow> True | Some v \<Rightarrow> shape v) \<Longrightarrow> check_optional r f shape = []"
  by (auto simp: check_optional_def split: option.splits)

lemma optional_checks_ok:
  assumes "\<forall>(f, shape)\<in>set fs. case map_of r f of None \<Rightarrow> True | Some v \<Rightarrow> shape v"
  shows "concat (map (\<lambda>(f, shape). check_optional r f shape) fs) = []"
  using assms by (induction fs) (auto simp: check_optional_ok)

lemma find_json_files_flat_set:
  "\<forall>e\<in>set es. \<exists>p. e = File p \<Longrightarrow>
     set (find_json_files es recursive) = {p. File p \<in> set es \<and> is_data_file p}"
proof (induction es)
  case Nil
  then show ?case by simp
next
  case (Cons e es)
  then obtain p where "e = File p" by auto
  with Cons show ?case by auto
qed

lemma find_json_files_flat_distinct:
  "\<forall>e\<in>set es. \<exists>p. e = File p \<Longrightarrow> distinct es \<Longrightarrow>
     distinct (find_json_files es recursive)"
proof (induction es)
  case Nil
  then show ?case by simp
next
  case (Cons e es)
  then obtain p where e: "e = File p" by auto
  from Cons.prems have flat: "\<forall>e\<in>set es. \<exists>p. e = File p" by simp
  from Cons e have "p \<notin> set (find_json_files es recursive)"
    by (simp add: find_json_files_flat_set [OF flat])
  with Cons e flat show ?case by simp
qed

lemma txt_is_no_data_file: "ends_with ''.txt'' p \<Longrightarrow> \<not> is_data_file p"
  by (cases "rev p") (auto simp: ends_with_def is_data_file_def split: if_splits)

section \<open>Properties of the plan generator\<close>

text \<open>
  C7. For every step index whose dependency text is the literal string \<^verbatim>\<open>None\<close>
  (as extracted, or as the default of a step without a dependency line), the sub-task
  generated for that index has an empty context list.
\<close>

theorem none_dependency_gives_empty_context:
  assumes "fst (generate_steps self reply) = Inr plan"
    and "k < length plan"
    and "step_dependency (findall dependency_pattern reply) k = ''None''"
  shows "context' (plan ! k) = []"
proof -
  from generate_steps_plan [OF assms(1)] assms(2)
  obtain a ctx where
    "build_context (take k plan) (step_dependency (findall dependency_pattern reply) k) = Inr ctx"
    and "plan ! k = Task (findall task_pattern reply ! k)
                      (step_output (findall output_pattern reply) k) (Some [a]) ctx"
    by blast
  with assms(3) show ?thesis by (simp add: build_context_None)
qed

theorem none_dependency_gives_empty_context_witness:
  "fst (generate_steps two_agent_workflow two_step_reply) = Inr two_step_plan \<and>
   0 < length two_step_plan \<and>
   step_dependency (findall dependency_pattern two_step_reply) 0 = ''None'' \<and>
   context' (two_step_plan ! 0) = []"
proof -
  note run = two_step_run
  have len: "0 < length two_step_plan" by (simp add: two_step_plan_def)
  have dep: "step_dependency (findall dependency_pattern two_step_reply) 0 = ''None''"
    by code_simp
  note empty = none_dependency_gives_empty_context [OF run len dep]
  show ?thesis by (intro conjI run len dep empty)
qed

text \<open>
  C2. In every plan that \<^verbatim>\<open>generate_steps\<close> returns, the context list of the
  sub-task at position \<open>k\<close> is read off positions below \<open>k\<close> of the same plan:
  entry by entry it is the sub-task at some earlier position \<open>j < k\<close>, never taken
  from position \<open>k\<close> or beyond, and the sub-task is not in its own context.
\<close>

theorem context_refers_to_earlier_steps:
  assumes "fst (generate_steps self reply) = Inr plan"
    and "k < length plan"
  shows "(\<exists>js. length js = length (context' (plan ! k)) \<and> (\<forall>j\<in>set js. j < k) \<and>
               context' (plan ! k) = map ((!) plan) js) \<and>
         plan ! k \<notin> set (context' (plan ! k))"
proof
  from generate_steps_plan [OF assms(1)] assms(2)
  obtain a ctx where
    ctx: "build_context (take k plan) (step_dependency (findall dependency_pattern reply) k) = Inr ctx"
    and "plan ! k = Task (findall task_pattern reply ! k)
                      (step_output (findall output_pattern reply) k) (Some [a]) ctx"
    by blast
  then have c: "context' (plan ! k) = ctx" by simp
  have "\<forall>c\<in>set ctx. \<exists>i<k. c = plan ! i"
  proof
    fix c assume "c \<in> set ctx"
    with build_context_members [OF ctx] obtain i where "i < length (take k plan)" "c = take k plan ! i"
      by blast
    with assms(2) have "i < k" "c = plan ! i" by simp_all
    then show "\<exists>i<k. c = plan ! i" by blast
  qed
  from positions_of_members [OF this] c
  show "\<exists>js. length js = length (context' (plan ! k)) \<and> (\<forall>j\<in>set js. j < k) \<and>
               context' (plan ! k) = map ((!) plan) js" by simp
next
  show "plan ! k \<notin> set (context' (plan ! k))"
    using context_smaller [of "plan ! k" "plan ! k"] by blast
qed

theorem context_refers_to_earlier_steps_witness:
  "fst (generate_steps two_agent_workflow two_step_reply) = Inr two_step_plan \<and>
   1 < length two_step_plan \<and>
   context' (two_step_plan ! 1) = [two_step_plan ! 0] \<and>
   (\<exists>js. length js = length (context' (two_step_plan ! 1)) \<and> (\<forall>j\<in>set js. j < 1) \<and>
         context' (two_step_plan ! 1) = map ((!) two_step_plan) js) \<and>
   two_step_plan ! 1 \<notin> set (context' (two_step_plan ! 1))"
proof -
  note run = two_step_run
  have len: "1 < length two_step_plan" by (simp add: two_step_plan_def)
  have ctx: "context' (two_step_plan ! 1) = [two_step_plan ! 0]" by (simp add: two_step_plan_def)
  note earlier = context_refers_to_earlier_steps [OF run len]
  show ?thesis
    by (intro conjI run len ctx conjunct1 [OF earlier] conjunct2 [OF earlier])
qed

text \<open>
  C6. Every sub-task of a returned plan has exactly one bound agent, taken from the
  roster of the input task: the first roster agent whose name equals the parsed agent
  name, and the first agent of the roster when no name on the roster equals it.
\<close>

theorem one_bound_agent_from_roster:
  assumes "fst (generate_steps self reply) = Inr plan"
    and "k < length plan"
  shows "\<exists>t rest roster a.
           tasks self = TaskList (t # rest) \<and> agents t = Some roster \<and>
           agents (plan ! k) = Some [a] \<and> a \<in> set roster \<and>
           ((\<exists>b\<in>set roster. name b = findall agent_pattern reply ! k) \<longrightarrow>
              find (\<lambda>b. name b = findall agent_pattern reply ! k) roster = Some a \<and>
              name a = findall agent_pattern reply ! k) \<and>
           ((\<forall>b\<in>set roster. name b \<noteq> findall agent_pattern reply ! k) \<longrightarrow> a = roster ! 0)"
proof -
  from generate_steps_plan [OF assms(1)] assms(2)
  obtain t rest R a ctx where self: "tasks self = TaskList (t # rest)" "agents t = Some R"
    and a: "select_agent R (findall agent_pattern reply ! k) = Inr a"
    and "plan ! k = Task (findall task_pattern reply ! k)
                      (step_output (findall output_pattern reply) k) (Some [a]) ctx"
    by blast
  then have "agents (plan ! k) = Some [a]" by simp
  with self select_agent_Inr [OF a] show ?thesis by blast
qed

theorem one_bound_agent_from_roster_witness:
  "fst (generate_steps two_agent_workflow two_step_reply) = Inr two_step_plan \<and>
   1 < length two_step_plan \<and>
   agents (two_step_plan ! 0) = Some [iot_agent] \<and>
   agents (two_step_plan ! 1) = Some [iot_agent] \<and>
   (\<exists>t rest roster a.
      tasks two_agent_workflow = TaskList (t # rest) \<and> agents t = Some roster \<and>
      agents (two_step_plan ! 1) = Some [a] \<and> a \<in> set roster \<and>
      ((\<exists>b\<in>set roster. name b = findall agent_pattern two_step_reply ! 1) \<longrightarrow>
         find (\<lambda>b. name b = findall agent_pattern two_step_reply ! 1) roster = Some a \<and>
         name a = findall agent_pattern two_step_reply ! 1) \<and>
      ((\<forall>b\<in>set roster. name b \<noteq> findall agent_pattern two_step_reply ! 1) \<longrightarrow>
         a = roster ! 0))"
proof -
  note run = two_step_run
  have len: "1 < length two_step_plan" by (simp add: two_step_plan_def)
  have a0: "agents (two_step_plan ! 0) = Some [iot_agent]"
    by (simp add: two_step_plan_def first_step_def)
  have a1: "agents (two_step_plan ! 1) = Some [iot_agent]"
    by (simp add: two_step_plan_def)
  note bound = one_bound_agent_from_roster [OF run len]
  show ?thesis by (intro conjI run len a0 a1 bound)
qed













text \<open>
  C5. Constructing the workflow with a tasks list whose length is not one, or whose
  single task has no agents (\<^verbatim>\<open>None\<close> or an empty roster), raises \<^verbatim>\<open>ValueError\<close>; so
  does a value that is no list. With exactly one task that has at least one agent the
  construction succeeds and yields the object with its fields set. The constructor is a
  function of its two arguments alone: the inference function is no part of it, so the
  error is raised before any model call.
\<close>

theorem init_raises_configuration_error:
  "init NotAList llm_id = Inl (ValueError ''tasks must be a list of Task objects'') \<and>
   (length l \<noteq> 1 \<longrightarrow>
      init (TaskList l) llm_id = Inl (ValueError ''Planning only supports one task'')) \<and>
   (agents t = None \<or> agents t = Some [] \<longrightarrow>
      init (TaskList [t]) llm_id = Inl (ValueError ''Task must have at least one agent'')) \<and>
   (agents t = Some roster \<and> roster \<noteq> [] \<longrightarrow>
      init (TaskList [t]) llm_id =
        Inr \<lparr>tasks = TaskList [t], memory = [], max_memory = 10, llm = llm_id,
             max_retries = 5\<rparr>)"
proof -
  have not_list: "init NotAList llm_id = Inl (ValueError ''tasks must be a list of Task objects'')"
    by (simp add: init_def verify_tasks_def)
  have not_one: "length l \<noteq> 1 \<longrightarrow>
      init (TaskList l) llm_id = Inl (ValueError ''Planning only supports one task'')"
    by (simp add: init_def verify_tasks_def)
  have no_agent: "agents t = None \<or> agents t = Some [] \<longrightarrow>
      init (TaskList [t]) llm_id = Inl (ValueError ''Task must have at least one agent'')"
    by (auto simp: init_def verify_tasks_def)
  have ok: "agents t = Some roster \<and> roster \<noteq> [] \<longrightarrow>
      init (TaskList [t]) llm_id =
        Inr \<lparr>tasks = TaskList [t], memory = [], max_memory = 10, llm = llm_id,
             max_retries = 5\<rparr>"
    by (cases roster) (simp_all add: init_def verify_tasks_def)
  show ?thesis by (intro conjI not_list not_one no_agent ok)
qed

theorem init_raises_configuration_error_witness:
  "length ([] :: task list) \<noteq> 1 \<and>
   init (TaskList []) ''granite'' = Inl (ValueError ''Planning only supports one task'') \<and>
   length [goal_task [iot_agent], goal_task [fmsr_agent]] \<noteq> 1 \<and>
   init (TaskList [goal_task [iot_agent], goal_task [fmsr_agent]]) ''granite'' =
     Inl (ValueError ''Planning only supports one task'') \<and>
   agents (Task ''goal'' [] None []) = None \<and>
   init (TaskList [Task ''goal'' [] None []]) ''granite'' =
     Inl (ValueError ''Task must have at least one agent'') \<and>
   agents (goal_task []) = Some [] \<and>
   init (TaskList [goal_task []]) ''granite'' =
     Inl (ValueError ''Task must have at least one agent'') \<and>
   agents (goal_task [iot_agent]) = Some [iot_agent] \<and> [iot_agent] \<noteq> [] \<and>
   init (TaskList [goal_task [iot_agent]]) ''granite'' = Inr one_agent_workflow"
proof -
  have l0: "length ([] :: task list) \<noteq> 1" by simp
  have l2: "length [goal_task [iot_agent], goal_task [fmsr_agent]] \<noteq> 1" by simp
  have none: "agents (Task ''goal'' [] None []) = None" by simp
  have empty: "agents (goal_task []) = Some []" by (simp add: goal_task_def)
  have one: "agents (goal_task [iot_agent]) = Some [iot_agent]" by (simp add: goal_task_def)
  have ne: "[iot_agent] \<noteq> []" by simp
  note cfg = init_raises_configuration_error
  have r0: "init (TaskList []) ''granite'' = Inl (ValueError ''Planning only supports one task'')"
    using conjunct1 [OF conjunct2 [OF cfg [where l = "[]"]]] l0 by (rule mp)
  have r2: "init (TaskList [goal_task [iot_agent], goal_task [fmsr_agent]]) ''granite'' =
     Inl (ValueError ''Planning only supports one task'')"
    using conjunct1 [OF conjunct2
            [OF cfg [where l = "[goal_task [iot_agent], goal_task [fmsr_agent]]"]]] l2
    by (rule mp)
  have rn: "init (TaskList [Task ''goal'' [] None []]) ''granite'' =
     Inl (ValueError ''Task must have at least one agent'')"
    using conjunct1 [OF conjunct2 [OF conjunct2 [OF cfg [where t = "Task ''goal'' [] None []"]]]]
      none by blast
  have re: "init (TaskList [goal_task []]) ''granite'' =
     Inl (ValueError ''Task must have at least one agent'')"
    using conjunct1 [OF conjunct2 [OF conjunct2 [OF cfg [where t = "goal_task []"]]]]
      empty by blast
  have "init (TaskList [goal_task [iot_agent]]) ''granite'' =
        Inr \<lparr>tasks = TaskList [goal_task [iot_agent]], memory = [], max_memory = 10,
             llm = ''granite'', max_retries = 5\<rparr>"
    using conjunct2 [OF conjunct2 [OF conjunct2
            [OF cfg [where t = "goal_task [iot_agent]" and roster = "[iot_agent]"]]]]
      one ne by blast
  then have ok: "init (TaskList [goal_task [iot_agent]]) ''granite'' = Inr one_agent_workflow"
    by (simp add: one_agent_workflow_def new_workflow_def)
  show ?thesis by (intro conjI l0 r0 l2 r2 none rn empty re one ne ok)
qed

section \<open>Properties of the scenario validator\<close>

text \<open>
  C8. \<^verbatim>\<open>validate_scenario\<close> returns the empty error list for a record with a string
  \<^verbatim>\<open>id\<close> and a string \<^verbatim>\<open>text\<close> (every optional field absent or of its declared shape,
  as in the record of just these two fields), and for a record with an \<^verbatim>\<open>id\<close> but no
  \<^verbatim>\<open>text\<close> field it returns a non-empty list with a message that mentions \<^verbatim>\<open>text\<close>.
\<close>

theorem validate_scenario_id_and_text:
  "(map_of r ''id'' = Some (JString i) \<and> map_of r ''text'' = Some (JString txt) \<and>
    (\<forall>(f, shape)\<in>set optional_fields.
        case map_of r f of None \<Rightarrow> True | Some v \<Rightarrow> shape v) \<longrightarrow>
      validate_scenario r = []) \<and>
   (map_of r ''id'' = Some (JString i) \<and> map_of r ''text'' = None \<longrightarrow>
      validate_scenario r \<noteq> [] \<and> (\<exists>e\<in>set (validate_scenario r). mentions ''text'' e))"
proof -
  have valid: "map_of r ''id'' = Some (JString i) \<and> map_of r ''text'' = Some (JString txt) \<and>
    (\<forall>(f, shape)\<in>set optional_fields.
        case map_of r f of None \<Rightarrow> True | Some v \<Rightarrow> shape v) \<longrightarrow>
      validate_scenario r = []"
    by (simp add: validate_scenario_def check_required_def is_string_def
                  is_string_coercible_def optional_checks_ok)
  have invalid: "map_of r ''id'' = Some (JString i) \<and> map_of r ''text'' = None \<longrightarrow>
      validate_scenario r \<noteq> [] \<and> (\<exists>e\<in>set (validate_scenario r). mentions ''text'' e)"
  proof (rule impI)
    assume h: "map_of r ''id'' = Some (JString i) \<and> map_of r ''text'' = None"
    have m: "mentions ''text'' (field_error ''text'' ''field required'')"
      using mentions_prefix [of "''text''" "'': field required''"]
      by (simp add: field_error_def)
    from h have "field_error ''text'' ''field required'' \<in> set (validate_scenario r)"
      by (simp add: validate_scenario_def check_required_def)
    with m show "validate_scenario r \<noteq> [] \<and> (\<exists>e\<in>set (validate_scenario r). mentions ''text'' e)"
      by auto
  qed
  show ?thesis by (intro conjI valid invalid)
qed


theorem validate_scenario_id_and_text_witness:
  "map_of minimal_scenario ''id'' = Some (JString ''001'') \<and>
   map_of minimal_scenario ''text'' = Some (JString ''What IoT sites are available?'') \<and>
   list_all (\<lambda>(f, shape). case map_of minimal_scenario f of None \<Rightarrow> True | Some v \<Rightarrow> shape v)
     optional_fields \<and>
   validate_scenario minimal_scenario = [] \<and>
   map_of missing_text_scenario ''id'' = Some (JString ''999'') \<and>
   map_of missing_text_scenario ''text'' = None \<and>
   validate_scenario missing_text_scenario \<noteq> [] \<and>
   (\<exists>e\<in>set (validate_scenario missing_text_scenario). mentions ''text'' e)"
proof -
  have i1: "map_of minimal_scenario ''id'' = Some (JString ''001'')"
    and t1: "map_of minimal_scenario ''text'' = Some (JString ''What IoT sites are available?'')"
    by (simp_all add: minimal_scenario_def)
  have shapes: "list_all
       (\<lambda>(f, shape). case map_of minimal_scenario f of None \<Rightarrow> True | Some v \<Rightarrow> shape v)
       optional_fields"
    by (simp add: optional_fields_def minimal_scenario_def)
  then have o1: "\<forall>(f, shape)\<in>set optional_fields.
       case map_of minimal_scenario f of None \<Rightarrow> True | Some v \<Rightarrow> shape v"
    by (simp add: list_all_iff)
  have i2: "map_of missing_text_scenario ''id'' = Some (JString ''999'')"
    and t2: "map_of missing_text_scenario ''text'' = None"
    by (simp_all add: missing_text_scenario_def)
  have ok: "validate_scenario minimal_scenario = []"
    by (rule mp [OF conjunct1 [OF validate_scenario_id_and_text]])
       (rule conjI, rule i1, rule conjI, rule t1, rule o1)
  have bad: "validate_scenario missing_text_scenario \<noteq> [] \<and>
             (\<exists>e\<in>set (validate_scenario missing_text_scenario). mentions ''text'' e)"
    by (rule mp [OF conjunct2 [OF validate_scenario_id_and_text]])
       (rule conjI, rule i2, rule t2)
  show ?thesis by (intro conjI i1 t1 shapes ok i2 t2 conjunct1 [OF bad] conjunct2 [OF bad])
qed

text \<open>
  C9. For a directory that holds one \<^verbatim>\<open>.json\<close> file, one \<^verbatim>\<open>.jsonl\<close> file, one
  \<^verbatim>\<open>.txt\<close> file and one other file that is no data file, in any order,
  \<^verbatim>\<open>find_json_files\<close> returns exactly the two data files.
\<close>

theorem find_json_files_returns_the_data_files:
  assumes "ends_with ''.json'' a" and "ends_with ''.jsonl'' b" and "ends_with ''.txt'' c"
    and "\<not> is_data_file d"
    and "set entries = {File a, File b, File c, File d}" and "distinct entries"
  shows "set (find_json_files entries recursive) = {a, b} \<and>
         length (find_json_files entries recursive) = 2"
proof -
  from assms(5) have flat: "\<forall>e\<in>set entries. \<exists>p. e = File p" by auto
  have da: "is_data_file a" and db: "is_data_file b"
    using assms(1,2) by (simp_all add: is_data_file_def)
  have dc: "\<not> is_data_file c" using assms(3) by (rule txt_is_no_data_file)
  have ab: "a \<noteq> b"
  proof
    assume "a = b"
    with assms(1,2) show False
      by (cases "rev b") (auto simp: ends_with_def split: if_splits)
  qed
  have s: "set (find_json_files entries recursive) = {a, b}"
    unfolding find_json_files_flat_set [OF flat] assms(5)
    using da db dc assms(4) by auto
  have "distinct (find_json_files entries recursive)"
    by (rule find_json_files_flat_distinct [OF flat assms(6)])
  then have "length (find_json_files entries recursive) =
             card (set (find_json_files entries recursive))"
    by (simp add: distinct_card)
  also have "\<dots> = 2" unfolding s using ab by simp
  finally show ?thesis using s by simp
qed

theorem find_json_files_returns_the_data_files_witness:
  "ends_with ''.json'' ''test.json'' \<and> ends_with ''.jsonl'' ''test.jsonl'' \<and>
   ends_with ''.txt'' ''test.txt'' \<and> \<not> is_data_file ''test.py'' \<and>
   set test_directory =
     {File ''test.json'', File ''test.jsonl'', File ''test.txt'', File ''test.py''} \<and>
   distinct test_directory \<and>
   set (find_json_files test_directory False) = {''test.json'', ''test.jsonl''} \<and>
   length (find_json_files test_directory False) = 2 \<and>
   find_json_files test_directory False = [''test.json'', ''test.jsonl'']"
proof -
  have a: "ends_with ''.json'' ''test.json''" by (simp add: ends_with_def)
  have b: "ends_with ''.jsonl'' ''test.jsonl''" by (simp add: ends_with_def)
  have c: "ends_with ''.txt'' ''test.txt''" by (simp add: ends_with_def)
  have d: "\<not> is_data_file ''test.py''" by (simp add: is_data_file_def ends_with_def)
  have s: "set test_directory =
     {File ''test.json'', File ''test.jsonl'', File ''test.txt'', File ''test.py''}"
    by (simp add: test_directory_def)
  have dist: "distinct test_directory" by (simp add: test_directory_def)
  note found = find_json_files_returns_the_data_files [OF a b c d s dist, of False]
  have run: "find_json_files test_directory False = [''test.json'', ''test.jsonl'']"
    by (simp add: test_directory_def is_data_file_def ends_with_def)
  show ?thesis
    by (intro conjI a b c d s dist conjunct1 [OF found] conjunct2 [OF found] run)
qed

end
